theory Spec2Isabelle
  imports Main
begin

section \<open>Values, rows and exceptions\<close>

text \<open>
  The values a caller hands to the query builder (Python's \<open>Any\<close>): \<open>None\<close>, booleans,
  integers and strings. A Python \<open>dict\<close> keeps its keys in insertion order, so a record
  and a parameter mapping are association lists: \<open>keys()\<close> is \<open>map fst\<close>, \<open>values()\<close>
  is \<open>map snd\<close>, and \<open>d[k]\<close> raises \<open>KeyError\<close> for a missing key.
\<close>

datatype pyval = PNone | PBool bool | PInt int | PStr string

type_synonym row = "(string \<times> pyval) list"

text \<open>
  What a call can raise: the layer's own \<open>DatabaseError\<close>, the \<open>KeyError\<close> of a missing
  dictionary key, the driver's and the pool's errors (all instances of \<open>Exception\<close>), and
  the interrupts that derive from \<open>BaseException\<close> only, which a handler
  \<open>except Exception\<close> does not catch.
\<close>

datatype exn =
    DatabaseError string
  | KeyError string
  | DriverError string
  | PoolError string
  | KeyboardInterrupt
  | SystemExit

fun is_Exception :: "exn \<Rightarrow> bool" where
  "is_Exception KeyboardInterrupt = False"
| "is_Exception SystemExit = False"
| "is_Exception ex = True"

text \<open>What the driver's \<open>cursor.execute(sql, params)\<close> receives as \<open>params\<close>: a tuple
  (positional binding) or a mapping (binding of \<open>%(name)s\<close> placeholders).\<close>

datatype bind = Positional "pyval list" | Named row

text \<open>The calls that reach the pool and the connection, in the order they are made.\<close>

datatype event = GetConn | Execute string bind | Commit | Rollback | PutConn

text \<open>
  The pool and the database are parameters: whether \<open>pool.getconn()\<close> raises (the message
  of the pool's error), whether \<open>conn.commit()\<close> raises (the message of the driver's
  error), and what a statement does given the calls made so far (the driver raises an error
  with a message, or it leaves a list of rows in the cursor). \<open>conn.rollback()\<close> and
  \<open>pool.putconn(conn)\<close> are taken to return.
\<close>

record env =
  getconn :: "string option"
  commit :: "string option"
  run :: "event list \<Rightarrow> string \<Rightarrow> bind \<Rightarrow> string + row list"

text \<open>The result of a terminal call, \<open>{"data": results, "count": len(results)}\<close>. An entry
  of \<open>data\<close> is a row, or \<open>None\<close> where \<open>cursor.fetchone()\<close> found no row.\<close>

record result =
  data :: "row option list"
  count :: nat

section \<open>Strings\<close>

text \<open>\<open>sep.join(xs)\<close>\<close>

fun join :: "string \<Rightarrow> string list \<Rightarrow> string" where
  "join sep [] = []"
| "join sep [x] = x"
| "join sep (x # y # ys) = x @ sep @ join sep (y # ys)"

text \<open>\<open>str(n)\<close> for an integer, as an f-string renders it.\<close>

definition digit_char :: "nat \<Rightarrow> char" where
  "digit_char d = char_of (48 + d)"

fun str_nat :: "nat \<Rightarrow> string" where
  "str_nat n = (if n < 10 then [digit_char n] else str_nat (n div 10) @ [digit_char (n mod 10)])"

definition str_int :: "int \<Rightarrow> string" where
  "str_int i = (if i < 0 then CHR ''-'' # str_nat (nat (- i)) else str_nat (nat i))"




text \<open>
  \<open>repr(s)\<close> of a string: single quotes, or double quotes when the string holds a single
  quote and no double quote; the quote in use and the backslash are escaped, so are newline,
  carriage return and tab, and the other control characters are written \<open>\xNN\<close>. Bytes
  from 0x80 on stand for the printable characters they encode and are kept.
\<close>

definition hex_digit :: "nat \<Rightarrow> char" where
  "hex_digit d = ''0123456789abcdef'' ! d"

definition repr_char :: "char \<Rightarrow> char \<Rightarrow> string" where
  "repr_char q c =
     (if c = q \<or> c = CHR 0x5C then [CHR 0x5C, c]
      else if c = CHR 0x0A then [CHR 0x5C, CHR ''n'']
      else if c = CHR 0x0D then [CHR 0x5C, CHR ''r'']
      else if c = CHR 0x09 then [CHR 0x5C, CHR ''t'']
      else if (of_char c :: nat) < 32 \<or> (of_char c :: nat) = 127
        then [CHR 0x5C, CHR ''x'', hex_digit (of_char c div 16), hex_digit (of_char c mod 16)]
      else [c])"

definition py_repr :: "string \<Rightarrow> string" where
  "py_repr s =
     (let q = (if CHR 0x27 \<in> set s \<and> CHR 0x22 \<notin> set s then CHR 0x22 else CHR 0x27)
      in [q] @ concat (map (repr_char q) s) @ [q])"

text \<open>\<open>str(e)\<close> for an exception: the message, and for a \<open>KeyError\<close> the \<open>repr\<close> of the
  key; an interrupt has no message.\<close>

fun exn_str :: "exn \<Rightarrow> string" where
  "exn_str (DatabaseError m) = m"
| "exn_str (KeyError k) = py_repr k"
| "exn_str (DriverError m) = m"
| "exn_str (PoolError m) = m"
| "exn_str KeyboardInterrupt = []"
| "exn_str SystemExit = []"

section \<open>The transaction scope\<close>

text \<open>
  \<open>PostgreSQLClient.get_connection\<close>: the body of the \<open>with\<close> block is a function from the
  calls made so far to its outcome and the calls extended. When \<open>getconn()\<close> raises, \<open>conn\<close>
  is still \<open>None\<close>: the error is re-raised and there is nothing to roll back or to return.
  The handler is \<open>except Exception\<close>: what the body raises is rolled back and re-raised
  when it is an instance of \<open>Exception\<close>; any other exception passes the handler by. A
  failed \<open>commit()\<close> is handled the same way. The \<open>finally\<close> block returns the connection.
\<close>

definition get_connection ::
  "env \<Rightarrow> (event list \<Rightarrow> (exn + 'a) \<times> event list) \<Rightarrow> (exn + 'a) \<times> event list" where
  "get_connection e body =
     (case getconn e of
        Some msg \<Rightarrow> (Inl (PoolError msg), [GetConn])
      | None \<Rightarrow>
          (case body [GetConn] of
             (Inl ex, tr) \<Rightarrow>
               (if is_Exception ex then (Inl ex, tr @ [Rollback, PutConn])
                else (Inl ex, tr @ [PutConn]))
           | (Inr v, tr) \<Rightarrow>
               (case commit e of
                  Some msg \<Rightarrow> (Inl (DriverError msg), tr @ [Commit, Rollback, PutConn])
                | None \<Rightarrow> (Inr v, tr @ [Commit, PutConn]))))"

text \<open>\<open>PostgreSQLClient.get_cursor\<close>: a cursor on the connection of a transaction scope.\<close>

definition get_cursor ::
  "env \<Rightarrow> (event list \<Rightarrow> (exn + 'a) \<times> event list) \<Rightarrow> (exn + 'a) \<times> event list" where
  "get_cursor e body = get_connection e body"

text \<open>\<open>cursor.execute(sql, params)\<close>: the call is recorded, then the driver answers.\<close>

definition cursor_execute ::
  "env \<Rightarrow> event list \<Rightarrow> string \<Rightarrow> bind \<Rightarrow> (exn + row list) \<times> event list" where
  "cursor_execute e tr sql b =
     (case run e tr sql b of Inl msg \<Rightarrow> Inl (DriverError msg) | Inr rows \<Rightarrow> Inr rows,
      tr @ [Execute sql b])"

text \<open>\<open>except Exception as e: raise DatabaseError(f"<prefix>{e}")\<close>\<close>

definition wrap_error :: "string \<Rightarrow> (exn + 'a) \<times> event list \<Rightarrow> (exn + 'a) \<times> event list" where
  "wrap_error prefix r =
     (case r of
        (Inl ex, tr) \<Rightarrow>
          (if is_Exception ex then (Inl (DatabaseError (prefix @ exn_str ex)), tr)
           else (Inl ex, tr))
      | (Inr v, tr) \<Rightarrow> (Inr v, tr))"

definition mk_result :: "row option list \<Rightarrow> result" where
  "mk_result results = \<lparr>data = results, count = length results\<rparr>"

section \<open>The query builder\<close>

record table =
  table_name :: string
  select_columns :: string
  where_conditions :: "string list"
  where_params :: "pyval list"
  order_by_clause :: string
  limit_count :: "int option"
  offset_count :: "int option"

definition new_table :: "string \<Rightarrow> table" where
  "new_table name =
     \<lparr>table_name = name, select_columns = ''*'', where_conditions = [], where_params = [],
      order_by_clause = '''', limit_count = None, offset_count = None\<rparr>"

definition select :: "string \<Rightarrow> table \<Rightarrow> table" where
  "select columns t = t\<lparr>select_columns := columns\<rparr>"

definition eq_op :: "string \<Rightarrow> pyval \<Rightarrow> table \<Rightarrow> table" where
  "eq_op column v t =
     t\<lparr>where_conditions := where_conditions t @ [column @ '' = %s''],
       where_params := where_params t @ [v]\<rparr>"

definition neq :: "string \<Rightarrow> pyval \<Rightarrow> table \<Rightarrow> table" where
  "neq column v t =
     t\<lparr>where_conditions := where_conditions t @ [column @ '' != %s''],
       where_params := where_params t @ [v]\<rparr>"

definition gt :: "string \<Rightarrow> pyval \<Rightarrow> table \<Rightarrow> table" where
  "gt column v t =
     t\<lparr>where_conditions := where_conditions t @ [column @ '' > %s''],
       where_params := where_params t @ [v]\<rparr>"

definition gte :: "string \<Rightarrow> pyval \<Rightarrow> table \<Rightarrow> table" where
  "gte column v t =
     t\<lparr>where_conditions := where_conditions t @ [column @ '' >= %s''],
       where_params := where_params t @ [v]\<rparr>"

definition lt :: "string \<Rightarrow> pyval \<Rightarrow> table \<Rightarrow> table" where
  "lt column v t =
     t\<lparr>where_conditions := where_conditions t @ [column @ '' < %s''],
       where_params := where_params t @ [v]\<rparr>"

definition lte :: "string \<Rightarrow> pyval \<Rightarrow> table \<Rightarrow> table" where
  "lte column v t =
     t\<lparr>where_conditions := where_conditions t @ [column @ '' <= %s''],
       where_params := where_params t @ [v]\<rparr>"

definition like :: "string \<Rightarrow> string \<Rightarrow> table \<Rightarrow> table" where
  "like column pattern t =
     t\<lparr>where_conditions := where_conditions t @ [column @ '' LIKE %s''],
       where_params := where_params t @ [PStr pattern]\<rparr>"

definition ilike :: "string \<Rightarrow> string \<Rightarrow> table \<Rightarrow> table" where
  "ilike column pattern t =
     t\<lparr>where_conditions := where_conditions t @ [column @ '' ILIKE %s''],
       where_params := where_params t @ [PStr pattern]\<rparr>"

definition in_op :: "string \<Rightarrow> pyval list \<Rightarrow> table \<Rightarrow> table" where
  "in_op column vals t =
     (if vals = [] then t\<lparr>where_conditions := where_conditions t @ [''FALSE'']\<rparr>
      else
        t\<lparr>where_conditions :=
            where_conditions t @
              [column @ '' IN ('' @ join '', '' (replicate (length vals) ''%s'') @ '')''],
          where_params := where_params t @ vals\<rparr>)"

definition is_op :: "string \<Rightarrow> pyval \<Rightarrow> table \<Rightarrow> table" where
  "is_op column v t =
     (if v = PNone then t\<lparr>where_conditions := where_conditions t @ [column @ '' IS NULL'']\<rparr>
      else
        t\<lparr>where_conditions := where_conditions t @ [column @ '' IS %s''],
          where_params := where_params t @ [v]\<rparr>)"

definition order :: "string \<Rightarrow> bool \<Rightarrow> table \<Rightarrow> table" where
  "order column desc t =
     t\<lparr>order_by_clause := ''ORDER BY '' @ column @ '' '' @ (if desc then ''DESC'' else ''ASC'')\<rparr>"



section \<open>Terminal calls\<close>

text \<open>The statement \<open>execute()\<close> builds: the \<open>WHERE\<close>, \<open>ORDER BY\<close>, \<open>LIMIT\<close> and \<open>OFFSET\<close>
  parts are added when the list is non-empty, the string is non-empty, the count is not
  \<open>None\<close>.\<close>

definition select_sql :: "table \<Rightarrow> string" where
  "select_sql t =
     ''SELECT '' @ select_columns t @ '' FROM '' @ table_name t
     @ (if where_conditions t \<noteq> [] then '' WHERE '' @ join '' AND '' (where_conditions t) else [])
     @ (if order_by_clause t \<noteq> [] then '' '' @ order_by_clause t else [])
     @ (case limit_count t of None \<Rightarrow> [] | Some n \<Rightarrow> '' LIMIT '' @ str_int n)
     @ (case offset_count t of None \<Rightarrow> [] | Some m \<Rightarrow> '' OFFSET '' @ str_int m)"

text \<open>\<open>cursor.execute(sql, params); results = cursor.fetchall(); return {...}\<close>, the body
  shared by \<open>execute\<close>, \<open>update\<close>, \<open>delete\<close> and the stored-procedure call.\<close>

definition fetchall_body ::
  "env \<Rightarrow> string \<Rightarrow> bind \<Rightarrow> event list \<Rightarrow> (exn + result) \<times> event list" where
  "fetchall_body e sql b tr =
     (case cursor_execute e tr sql b of
        (Inl ex, tr') \<Rightarrow> (Inl ex, tr')
      | (Inr rows, tr') \<Rightarrow> (Inr (mk_result (map Some rows)), tr'))"

definition execute :: "env \<Rightarrow> table \<Rightarrow> (exn + result) \<times> event list" where
  "execute e t =
     wrap_error ''Database query failed: ''
       (get_cursor e (fetchall_body e (select_sql t) (Positional (where_params t))))"

text \<open>\<open>insert\<close> takes one record or a list of records.\<close>

datatype insert_arg = One row | Many "row list"

text \<open>\<open>record[col]\<close>\<close>

definition getitem :: "row \<Rightarrow> string \<Rightarrow> exn + pyval" where
  "getitem r col = (case map_of r col of None \<Rightarrow> Inl (KeyError col) | Some v \<Rightarrow> Inr v)"

text \<open>\<open>tuple(record[col] for col in columns)\<close>: the first missing key raises.\<close>

fun record_values :: "row \<Rightarrow> string list \<Rightarrow> exn + pyval list" where
  "record_values r [] = Inr []"
| "record_values r (col # cols) =
     (case getitem r col of
        Inl ex \<Rightarrow> Inl ex
      | Inr v \<Rightarrow> (case record_values r cols of Inl ex \<Rightarrow> Inl ex | Inr vs \<Rightarrow> Inr (v # vs)))"

text \<open>\<open>cursor.fetchone()\<close>: the next row of the statement's result, or \<open>None\<close>.\<close>

definition fetchone :: "row list \<Rightarrow> row option" where
  "fetchone rows = (case rows of [] \<Rightarrow> None | r # _ \<Rightarrow> Some r)"

definition insert_sql :: "string \<Rightarrow> string list \<Rightarrow> string" where
  "insert_sql name columns =
     ''INSERT INTO '' @ name @ '' ('' @ join '', '' columns @ '') VALUES (''
     @ join '', '' (replicate (length columns) ''%s'') @ '') RETURNING *''"

text \<open>The loop \<open>for record in data\<close>, with the results and the calls made so far.\<close>

fun insert_loop ::
  "env \<Rightarrow> string \<Rightarrow> string list \<Rightarrow> row list \<Rightarrow> row option list \<Rightarrow> event list
   \<Rightarrow> (exn + row option list) \<times> event list" where
  "insert_loop e sql columns [] results tr = (Inr results, tr)"
| "insert_loop e sql columns (r # rs) results tr =
     (case record_values r columns of
        Inl ex \<Rightarrow> (Inl ex, tr)
      | Inr vals \<Rightarrow>
          (case cursor_execute e tr sql (Positional vals) of
             (Inl ex, tr') \<Rightarrow> (Inl ex, tr')
           | (Inr rows, tr') \<Rightarrow> insert_loop e sql columns rs (results @ [fetchone rows]) tr'))"

definition insert_body ::
  "env \<Rightarrow> string \<Rightarrow> string list \<Rightarrow> row list \<Rightarrow> event list \<Rightarrow> (exn + result) \<times> event list" where
  "insert_body e sql columns recs tr =
     (case insert_loop e sql columns recs [] tr of
        (Inl ex, tr') \<Rightarrow> (Inl ex, tr')
      | (Inr results, tr') \<Rightarrow> (Inr (mk_result results), tr'))"

definition insert_tbl :: "env \<Rightarrow> table \<Rightarrow> insert_arg \<Rightarrow> (exn + result) \<times> event list" where
  "insert_tbl e t arg =
     wrap_error ''Database insert failed: ''
       (let recs = (case arg of One r \<Rightarrow> [r] | Many rs \<Rightarrow> rs) in
        case recs of
          [] \<Rightarrow> (Inr \<lparr>data = [], count = 0\<rparr>, [])
        | first # _ \<Rightarrow>
            (let columns = map fst first in
             get_cursor e (insert_body e (insert_sql (table_name t) columns) columns recs)))"

definition update_sql :: "table \<Rightarrow> row \<Rightarrow> string" where
  "update_sql t patch =
     ''UPDATE '' @ table_name t @ '' SET '' @ join '', '' (map (\<lambda>col. col @ '' = %s'') (map fst patch))
     @ '' WHERE '' @ join '' AND '' (where_conditions t) @ '' RETURNING *''"

definition update :: "env \<Rightarrow> table \<Rightarrow> row \<Rightarrow> (exn + result) \<times> event list" where
  "update e t patch =
     wrap_error ''Database update failed: ''
       (if where_conditions t = []
        then (Inl (DatabaseError ''UPDATE requires WHERE conditions for safety''), [])
        else get_cursor e
               (fetchall_body e (update_sql t patch) (Positional (map snd patch @ where_params t))))"

definition delete_sql :: "table \<Rightarrow> string" where
  "delete_sql t =
     ''DELETE FROM '' @ table_name t @ '' WHERE '' @ join '' AND '' (where_conditions t)
     @ '' RETURNING *''"

definition delete :: "env \<Rightarrow> table \<Rightarrow> (exn + result) \<times> event list" where
  "delete e t =
     wrap_error ''Database delete failed: ''
       (if where_conditions t = []
        then (Inl (DatabaseError ''DELETE requires WHERE conditions for safety''), [])
        else get_cursor e (fetchall_body e (delete_sql t) (Positional (where_params t))))"

section \<open>Stored procedures\<close>

record rpc =
  function_name :: string
  params :: row

text \<open>\<open>client.rpc(function_name, params)\<close>: \<open>params or {}\<close>.\<close>

definition new_rpc :: "string \<Rightarrow> row option \<Rightarrow> rpc" where
  "new_rpc name ps = \<lparr>function_name = name, params = (case ps of None \<Rightarrow> [] | Some d \<Rightarrow> d)\<rparr>"

definition rpc_sql :: "rpc \<Rightarrow> string" where
  "rpc_sql r =
     ''SELECT * FROM '' @ function_name r @ ''(''
     @ join '', '' (map (\<lambda>key. ''%('' @ key @ '')s'') (map fst (params r))) @ '')''"

definition rpc_execute :: "env \<Rightarrow> rpc \<Rightarrow> (exn + result) \<times> event list" where
  "rpc_execute e r =
     wrap_error ''Database function call failed: ''
       (get_cursor e (fetchall_body e (rpc_sql r) (Named (params r))))"

section \<open>Chains of predicate calls\<close>

text \<open>A predicate call of the builder, with its arguments; a chain of calls is applied
  from left to right, each call on the builder the previous one returned.\<close>

datatype pred =
    CallEq string pyval
  | CallNeq string pyval
  | CallGt string pyval
  | CallGte string pyval
  | CallLt string pyval
  | CallLte string pyval
  | CallLike string string
  | CallIlike string string
  | CallIn string "pyval list"
  | CallIs string pyval

fun apply_pred :: "pred \<Rightarrow> table \<Rightarrow> table" where
  "apply_pred (CallEq c v) = eq_op c v"
| "apply_pred (CallNeq c v) = neq c v"
| "apply_pred (CallGt c v) = gt c v"
| "apply_pred (CallGte c v) = gte c v"
| "apply_pred (CallLt c v) = lt c v"
| "apply_pred (CallLte c v) = lte c v"
| "apply_pred (CallLike c p) = like c p"
| "apply_pred (CallIlike c p) = ilike c p"
| "apply_pred (CallIn c vs) = in_op c vs"
| "apply_pred (CallIs c v) = is_op c v"

definition chain :: "pred list \<Rightarrow> table \<Rightarrow> table" where
  "chain ps t = fold apply_pred ps t"

fun pred_column :: "pred \<Rightarrow> string" where
  "pred_column (CallEq c v) = c"
| "pred_column (CallNeq c v) = c"
| "pred_column (CallGt c v) = c"
| "pred_column (CallGte c v) = c"
| "pred_column (CallLt c v) = c"
| "pred_column (CallLte c v) = c"
| "pred_column (CallLike c p) = c"
| "pred_column (CallIlike c p) = c"
| "pred_column (CallIn c vs) = c"
| "pred_column (CallIs c v) = c"

text \<open>The values a predicate call asks to compare with: the value of a comparison, the
  pattern of a \<open>LIKE\<close>, the members of an \<open>IN\<close> list, the value of an \<open>IS\<close> test (none for
  the null test \<open>is_(column, None)\<close>).\<close>

fun pred_values :: "pred \<Rightarrow> pyval list" where
  "pred_values (CallEq c v) = [v]"
| "pred_values (CallNeq c v) = [v]"
| "pred_values (CallGt c v) = [v]"
| "pred_values (CallGte c v) = [v]"
| "pred_values (CallLt c v) = [v]"
| "pred_values (CallLte c v) = [v]"
| "pred_values (CallLike c p) = [PStr p]"
| "pred_values (CallIlike c p) = [PStr p]"
| "pred_values (CallIn c vs) = vs"
| "pred_values (CallIs c v) = (if v = PNone then [] else [v])"

text \<open>The clause one predicate call renders: what it adds to a builder without clauses.\<close>

definition pred_clause :: "pred \<Rightarrow> string list" where
  "pred_clause p = where_conditions (apply_pred p (new_table []))"

text \<open>The number of positional placeholders \<open>%s\<close> in a statement, read from the left.\<close>

fun count_ph :: "string \<Rightarrow> nat" where
  "count_ph (a # b # cs) =
     (if a = CHR ''%'' \<and> b = CHR ''s'' then Suc (count_ph cs) else count_ph (b # cs))"
| "count_ph [a] = 0"
| "count_ph [] = 0"

text \<open>The statements sent to the driver, with their parameters, among the calls made.\<close>

fun statements :: "event list \<Rightarrow> (string \<times> bind) list" where
  "statements [] = []"
| "statements (Execute sql b # evs) = (sql, b) # statements evs"
| "statements (ev # evs) = statements evs"

text \<open>The named placeholders \<open>%(name)s\<close> of a statement, in the order they occur: the
  names the driver looks up in the parameter mapping. The reader is outside a placeholder,
  just behind a \<open>%\<close>, or inside the parentheses with the name read so far.\<close>

datatype scan_state = Outside | Percent | Inside string

fun named_phs :: "scan_state \<Rightarrow> string \<Rightarrow> string list" where
  "named_phs st [] = []"
| "named_phs Outside (c # cs) =
     (if c = CHR ''%'' then named_phs Percent cs else named_phs Outside cs)"
| "named_phs Percent (c # cs) =
     (if c = CHR ''('' then named_phs (Inside []) cs else named_phs Outside cs)"
| "named_phs (Inside name) (c # cs) =
     (if c = CHR '')'' then name # named_phs Outside cs else named_phs (Inside (name @ [c])) cs)"

definition named_placeholders :: "string \<Rightarrow> string list" where
  "named_placeholders sql = named_phs Outside sql"

section \<open>Example environments\<close>

text \<open>A pool that lends a connection and a database that answers every statement with one
  row; one that answers every statement with no row; one whose commit fails; one whose
  pool lends nothing; one that fails every statement.\<close>

definition env_one_row :: env where
  "env_one_row = \<lparr>getconn = None, commit = None, run = (\<lambda>tr sql b. Inr [[(''id'', PInt 1)]])\<rparr>"

definition env_no_row :: env where
  "env_no_row = \<lparr>getconn = None, commit = None, run = (\<lambda>tr sql b. Inr [])\<rparr>"



text \<open>A database in which the statement binding the values 1 and \<open>x\<close> returns a row and
  any other statement returns none (a trigger that skips the other rows).\<close>

definition env_row_for_one :: env where
  "env_row_for_one =
     \<lparr>getconn = None, commit = None,
      run = (\<lambda>tr sql b. if b = Positional [PInt 1, PStr ''x'']
                         then Inr [[(''id'', PInt 1)]] else Inr [])\<rparr>"


section \<open>Placeholders and statements: auxiliary facts\<close>

lemma count_ph_clean: "CHR ''%'' \<notin> set xs \<Longrightarrow> count_ph (xs @ ys) = count_ph ys"
proof (induction xs)
  case Nil
  then show ?case by simp
next
  case (Cons x xs)
  then have x: "x \<noteq> CHR ''%''" and IH: "count_ph (xs @ ys) = count_ph ys" by auto
  show ?case
  proof (cases "xs @ ys")
    case Nil
    then show ?thesis by simp
  next
    case (Cons b cs)
    then have "count_ph ((x # xs) @ ys) = count_ph (b # cs)" using x by simp
    then show ?thesis using IH Cons by simp
  qed
qed

lemma count_ph_skip: "a \<noteq> CHR ''%'' \<Longrightarrow> count_ph (a # rest) = count_ph rest"
  by (cases rest) simp_all

lemma count_ph_ph: "count_ph (''%s'' @ ys) = Suc (count_ph ys)"
  by simp

lemma digit_char_not_percent: "d < 10 \<Longrightarrow> digit_char d \<noteq> CHR ''%''"
proof
  assume d: "d < 10" and "digit_char d = CHR ''%''"
  then have "of_char (char_of (48 + d) :: char) = (of_char (CHR ''%'') :: nat)"
    by (simp add: digit_char_def)
  then show False using d by (simp add: of_char_of)
qed

lemma str_nat_clean: "CHR ''%'' \<notin> set (str_nat n)"
proof (induction n rule: str_nat.induct)
  case (1 n)
  show ?case
  proof (cases "n < 10")
    case True
    then show ?thesis using digit_char_not_percent [of n] by (subst str_nat.simps) auto
  next
    case False
    then have "CHR ''%'' \<notin> set (str_nat (n div 10))" using 1 by simp
    moreover have "digit_char (n mod 10) \<noteq> CHR ''%''" by (rule digit_char_not_percent) simp
    ultimately show ?thesis using False by (subst str_nat.simps) auto
  qed
qed

lemma str_int_clean: "CHR ''%'' \<notin> set (str_int i)"
  by (simp add: str_int_def str_nat_clean del: str_nat.simps)








lemma apply_pred_conditions:
  "where_conditions (apply_pred p t) = where_conditions t @ pred_clause p"
  by (cases p)
     (simp_all add: pred_clause_def new_table_def eq_op_def neq_def gt_def gte_def lt_def lte_def
        like_def ilike_def in_op_def is_op_def)

lemma apply_pred_params:
  "where_params (apply_pred p t) = where_params t @ pred_values p"
  by (cases p)
     (simp_all add: eq_op_def neq_def gt_def gte_def lt_def lte_def
        like_def ilike_def in_op_def is_op_def)

lemma apply_pred_other:
  "table_name (apply_pred p t) = table_name t"
  "select_columns (apply_pred p t) = select_columns t"
  "order_by_clause (apply_pred p t) = order_by_clause t"
  "limit_count (apply_pred p t) = limit_count t"
  "offset_count (apply_pred p t) = offset_count t"
  by (cases p; simp add: eq_op_def neq_def gt_def gte_def lt_def lte_def
        like_def ilike_def in_op_def is_op_def)+

lemma chain_conditions:
  "where_conditions (chain ps t) = where_conditions t @ concat (map pred_clause ps)"
  unfolding chain_def
  by (induction ps arbitrary: t) (simp_all add: apply_pred_conditions)

lemma chain_params:
  "where_params (chain ps t) = where_params t @ concat (map pred_values ps)"
  unfolding chain_def
  by (induction ps arbitrary: t) (simp_all add: apply_pred_params)

lemma chain_other:
  "table_name (chain ps t) = table_name t"
  "select_columns (chain ps t) = select_columns t"
  "order_by_clause (chain ps t) = order_by_clause t"
  "limit_count (chain ps t) = limit_count t"
  "offset_count (chain ps t) = offset_count t"
  unfolding chain_def
  by (induction ps arbitrary: t; simp add: apply_pred_other)+

lemma count_ph_join:
  assumes "\<And>x rest. x \<in> set xs \<Longrightarrow> count_ph (x @ rest) = f x + count_ph rest"
    and "CHR ''%'' \<notin> set sep"
  shows "count_ph (join sep xs @ rest) = sum_list (map f xs) + count_ph rest"
  using assms
proof (induction sep xs rule: join.induct)
  case (1 sep)
  then show ?case by simp
next
  case (2 sep x)
  then show ?case by simp
next
  case (3 sep x y ys)
  have tl: "count_ph (join sep (y # ys) @ rest) = sum_list (map f (y # ys)) + count_ph rest"
    using 3 by simp
  have "count_ph (join sep (x # y # ys) @ rest) = count_ph (x @ (sep @ (join sep (y # ys) @ rest)))"
    by simp
  also have "\<dots> = f x + count_ph (sep @ (join sep (y # ys) @ rest))"
    using 3(2) by simp
  also have "\<dots> = f x + count_ph (join sep (y # ys) @ rest)"
    using count_ph_clean [OF 3(3)] by simp
  finally show ?case using tl by simp
qed

lemma count_ph_in_list:
  "count_ph (join '', '' (replicate n ''%s'') @ rest) = n + count_ph rest"
proof -
  have "count_ph (join '', '' (replicate n ''%s'') @ rest)
        = sum_list (map (\<lambda>x. 1) (replicate n ''%s'')) + count_ph rest"
    by (rule count_ph_join) auto
  then show ?thesis by (simp add: sum_list_replicate)
qed

lemma pred_clause_placeholders:
  assumes "CHR ''%'' \<notin> set (pred_column p)"
  shows "\<exists>cl. pred_clause p = [cl] \<and> (\<forall>rest. count_ph (cl @ rest) = length (pred_values p) + count_ph rest)"
  using assms
  by (cases p)
     (simp_all add: pred_clause_def new_table_def eq_op_def neq_def gt_def gte_def lt_def lte_def
        like_def ilike_def in_op_def is_op_def count_ph_clean count_ph_in_list count_ph_skip)


lemma pred_clause_one: "length (pred_clause p) = 1"
  by (cases p)
     (simp_all add: pred_clause_def new_table_def eq_op_def neq_def gt_def gte_def lt_def lte_def
        like_def ilike_def in_op_def is_op_def)

lemma chain_clauses_count: "length (concat (map pred_clause ps)) = length ps"
  by (induction ps) (simp_all add: pred_clause_one)

lemma count_ph_clean0: "CHR ''%'' \<notin> set xs \<Longrightarrow> count_ph xs = 0"
  using count_ph_clean [of xs "[]"] by simp

lemma statements_append: "statements (xs @ ys) = statements xs @ statements ys"
  by (induction xs rule: statements.induct) simp_all

lemma fetchall_statements:
  "statements (snd (wrap_error prefix (get_cursor e (fetchall_body e sql b))))
   = (if getconn e = None then [(sql, b)] else [])"
  by (simp add: wrap_error_def get_cursor_def get_connection_def fetchall_body_def
        cursor_execute_def split: option.splits sum.splits prod.splits)

lemma chain_clauses_placeholders:
  assumes "\<forall>p\<in>set ps. CHR ''%'' \<notin> set (pred_column p)"
  shows "map count_ph (concat (map pred_clause ps)) = map (length \<circ> pred_values) ps
       \<and> (\<forall>cl\<in>set (concat (map pred_clause ps)).
            \<forall>rest. count_ph (cl @ rest) = count_ph cl + count_ph rest)"
  using assms
proof (induction ps)
  case Nil
  then show ?case by simp
next
  case (Cons p ps)
  then obtain cl where cl: "pred_clause p = [cl]"
      and reg: "\<And>rest. count_ph (cl @ rest) = length (pred_values p) + count_ph rest"
    using pred_clause_placeholders [of p] by auto
  have k: "count_ph cl = length (pred_values p)" using reg [of "[]"] by simp
  show ?case using Cons cl reg k by simp
qed

lemma where_placeholders:
  assumes "\<forall>p\<in>set ps. CHR ''%'' \<notin> set (pred_column p)"
  shows "count_ph (join '' AND '' (concat (map pred_clause ps)) @ rest)
         = length (concat (map pred_values ps)) + count_ph rest"
proof -
  let ?cls = "concat (map pred_clause ps)"
  have "count_ph (join '' AND '' ?cls @ rest) = sum_list (map count_ph ?cls) + count_ph rest"
    using chain_clauses_placeholders [OF assms] by (intro count_ph_join) auto
  also have "map count_ph ?cls = map (length \<circ> pred_values) ps"
    using chain_clauses_placeholders [OF assms] by simp
  finally show ?thesis by (simp add: length_concat comp_def)
qed

lemma select_sql_placeholders:
  assumes cols: "\<forall>p\<in>set ps. CHR ''%'' \<notin> set (pred_column p)"
    and fresh: "where_conditions t = []" "where_params t = []"
    and clean: "CHR ''%'' \<notin> set (select_columns t)" "CHR ''%'' \<notin> set (table_name t)"
      "CHR ''%'' \<notin> set (order_by_clause t)"
  shows "count_ph (select_sql (chain ps t)) = length (where_params (chain ps t))"
proof -
  let ?b = "chain ps t"
  let ?tail = "(if order_by_clause t \<noteq> [] then '' '' @ order_by_clause t else [])
     @ (case limit_count t of None \<Rightarrow> [] | Some n \<Rightarrow> '' LIMIT '' @ str_int n)
     @ (case offset_count t of None \<Rightarrow> [] | Some m \<Rightarrow> '' OFFSET '' @ str_int m)"
  let ?head = "''SELECT '' @ select_columns t @ '' FROM '' @ table_name t"
  have tail: "CHR ''%'' \<notin> set ?tail"
    using clean(3) by (simp add: str_int_clean split: option.splits)
  have head: "CHR ''%'' \<notin> set ?head" using clean(1,2) by simp
  have conds: "where_conditions ?b = concat (map pred_clause ps)"
    by (simp add: chain_conditions fresh)
  have params: "where_params ?b = concat (map pred_values ps)"
    by (simp add: chain_params fresh)
  show ?thesis
  proof (cases "concat (map pred_clause ps) = []")
    case True
    then have "select_sql ?b = ?head @ ?tail"
      by (simp add: select_sql_def conds chain_other)
    moreover have "count_ph (?head @ ?tail) = 0"
      using head tail by (intro count_ph_clean0) simp
    moreover have "length (concat (map pred_values ps)) = 0"
    proof -
      have "map (length \<circ> pred_values) ps = map count_ph (concat (map pred_clause ps))"
        using chain_clauses_placeholders [OF cols] by simp
      then have "sum_list (map (length \<circ> pred_values) ps) = 0" using True by simp
      then show ?thesis by (simp add: length_concat comp_def)
    qed
    ultimately show ?thesis by (simp add: params)
  next
    case False
    then have "select_sql ?b
        = (?head @ '' WHERE '') @ (join '' AND '' (concat (map pred_clause ps)) @ ?tail)"
      by (simp add: select_sql_def conds chain_other)
    moreover have "count_ph ((?head @ '' WHERE '') @ (join '' AND '' (concat (map pred_clause ps)) @ ?tail))
        = count_ph (join '' AND '' (concat (map pred_clause ps)) @ ?tail)"
      using head by (intro count_ph_clean) simp
    moreover have "count_ph (join '' AND '' (concat (map pred_clause ps)) @ ?tail)
        = length (concat (map pred_values ps)) + count_ph ?tail"
      by (rule where_placeholders [OF cols])
    moreover have "count_ph ?tail = 0" using tail by (rule count_ph_clean0)
    ultimately show ?thesis by (simp add: params)
  qed
qed

section \<open>Safety of destructive calls\<close>

text \<open>
  C8. \<open>insert([])\<close> returns the empty result \<open>{data: [], count: 0}\<close> at once: no connection is
  taken from the pool and no statement is sent (the list of calls is empty), whatever the
  pool and the database would do.
\<close>

theorem insert_empty_no_connection:
  "insert_tbl e t (Many []) = (Inr \<lparr>data = [], count = 0\<rparr>, [])"
  by (simp add: insert_tbl_def wrap_error_def)

text \<open>
  C2. On a builder without predicates, \<open>update(patch)\<close> and \<open>delete()\<close> fail with the
  safety error (a \<open>DatabaseError\<close> carrying the refusal) and the list of calls is empty: no
  connection is taken and no statement is sent, so no statement without a \<open>WHERE\<close> clause
  ever reaches the database.
\<close>

theorem update_delete_refused_without_predicates:
  "where_conditions t = [] \<Longrightarrow>
     update e t patch =
       (Inl (DatabaseError ''Database update failed: UPDATE requires WHERE conditions for safety''), [])
     \<and> delete e t =
       (Inl (DatabaseError ''Database delete failed: DELETE requires WHERE conditions for safety''), [])"
  by (simp add: update_def delete_def wrap_error_def)

theorem update_delete_refused_without_predicates_witness:
  "where_conditions (new_table ''t'') = []
   \<and> update env_one_row (new_table ''t'') [(''a'', PInt 1)] =
       (Inl (DatabaseError ''Database update failed: UPDATE requires WHERE conditions for safety''), [])
   \<and> delete env_one_row (new_table ''t'') =
       (Inl (DatabaseError ''Database delete failed: DELETE requires WHERE conditions for safety''), [])"
  using update_delete_refused_without_predicates [of "new_table ''t''" env_one_row "[(''a'', PInt 1)]"]
  by (simp add: new_table_def)

section \<open>The transaction scope commits, rolls back and returns the connection\<close>




section \<open>Predicates, placeholders and bound parameters\<close>

text \<open>
  C1. For every chain of predicate calls on a builder: the bound parameters grow by exactly
  the values of the calls, in call order; the clauses grow by the clauses of the calls, one
  per call, in call order; \<open>execute()\<close> sends one statement, the rendered \<open>SELECT\<close> with
  the clauses joined in that order, and exactly that parameter list. Where the column names
  hold no \<open>%\<close>, the i-th clause holds as many placeholders as the i-th call has values;
  where the builder had no earlier predicates and its table, column and ordering names
  hold no \<open>%\<close> either, the whole statement holds as many placeholders as there are
  parameters.
\<close>

theorem predicate_chain_alignment:
  "where_params (chain ps t) = where_params t @ concat (map pred_values ps)
   \<and> where_conditions (chain ps t) = where_conditions t @ concat (map pred_clause ps)
   \<and> length (concat (map pred_clause ps)) = length ps
   \<and> statements (snd (execute e (chain ps t)))
       = (if getconn e = None
          then [(select_sql (chain ps t), Positional (where_params t @ concat (map pred_values ps)))]
          else [])
   \<and> ((\<forall>p\<in>set ps. CHR ''%'' \<notin> set (pred_column p)) \<longrightarrow>
         map count_ph (concat (map pred_clause ps)) = map (length \<circ> pred_values) ps)
   \<and> ((\<forall>p\<in>set ps. CHR ''%'' \<notin> set (pred_column p))
        \<and> where_conditions t = [] \<and> where_params t = []
        \<and> CHR ''%'' \<notin> set (select_columns t) \<and> CHR ''%'' \<notin> set (table_name t)
        \<and> CHR ''%'' \<notin> set (order_by_clause t) \<longrightarrow>
         count_ph (select_sql (chain ps t)) = length (concat (map pred_values ps)))"
proof -
  have sent: "statements (snd (execute e (chain ps t)))
       = (if getconn e = None
          then [(select_sql (chain ps t), Positional (where_params t @ concat (map pred_values ps)))]
          else [])"
    unfolding execute_def fetchall_statements chain_params by simp
  have total: "count_ph (select_sql (chain ps t)) = length (concat (map pred_values ps))"
    if "\<forall>p\<in>set ps. CHR ''%'' \<notin> set (pred_column p)"
      and "where_conditions t = []" and "where_params t = []"
      and "CHR ''%'' \<notin> set (select_columns t)" and "CHR ''%'' \<notin> set (table_name t)"
      and "CHR ''%'' \<notin> set (order_by_clause t)"
    using select_sql_placeholders [OF that] that(3) by (simp add: chain_params)
  show ?thesis
    using chain_params [of ps t] chain_conditions [of ps t] chain_clauses_count [of ps] sent
      chain_clauses_placeholders [of ps] total
    by blast
qed

theorem predicate_chain_alignment_witness:
  "statements (snd (execute env_one_row
       (chain [CallEq ''a'' (PInt 1), CallGt ''b'' (PInt 2)] (new_table ''t''))))
     = [(''SELECT * FROM t WHERE a = %s AND b > %s'', Positional [PInt 1, PInt 2])]
   \<and> where_conditions (chain [CallEq ''a'' (PInt 1), CallGt ''b'' (PInt 2)] (new_table ''t''))
     = [''a = %s'', ''b > %s'']
   \<and> where_params (chain [CallEq ''a'' (PInt 1), CallGt ''b'' (PInt 2)] (new_table ''t''))
     = [PInt 1, PInt 2]
   \<and> count_ph ''SELECT * FROM t WHERE a = %s AND b > %s'' = 2"
  using predicate_chain_alignment
    [of "[CallEq ''a'' (PInt 1), CallGt ''b'' (PInt 2)]" "new_table ''t''" env_one_row]
  by (simp add: new_table_def env_one_row_def pred_clause_def chain_def eq_op_def gt_def
        select_sql_def)

text \<open>
  C4. \<open>in_(column, [])\<close> adds the clause \<open>FALSE\<close> and no bound parameter; the clause holds
  no placeholder; \<open>execute()\<close> renders it as one more conjunct of the \<open>WHERE\<close> part, never as
  an empty \<open>IN ()\<close> list and never without a \<open>WHERE\<close> part, and sends the parameters
  unchanged; under every reading of the clauses as row tests in which \<open>FALSE\<close> holds of no
  row, no row passes the conjunction of the builder's clauses.
\<close>

theorem in_empty_renders_false:
  "where_conditions (in_op column [] t) = where_conditions t @ [''FALSE'']
   \<and> where_params (in_op column [] t) = where_params t
   \<and> count_ph ''FALSE'' = 0
   \<and> select_sql (in_op column [] t)
       = ''SELECT '' @ select_columns t @ '' FROM '' @ table_name t
         @ '' WHERE '' @ join '' AND '' (where_conditions t @ [''FALSE''])
         @ (if order_by_clause t \<noteq> [] then '' '' @ order_by_clause t else [])
         @ (case limit_count t of None \<Rightarrow> [] | Some n \<Rightarrow> '' LIMIT '' @ str_int n)
         @ (case offset_count t of None \<Rightarrow> [] | Some m \<Rightarrow> '' OFFSET '' @ str_int m)
   \<and> statements (snd (execute e (in_op column [] t)))
       = (if getconn e = None
          then [(select_sql (in_op column [] t), Positional (where_params t))] else [])
   \<and> ((\<forall>r. \<not> holds ''FALSE'' r) \<longrightarrow>
        (\<forall>r. \<not> list_all (\<lambda>clause. holds clause r) (where_conditions (in_op column [] t))))"
  by (simp add: in_op_def select_sql_def execute_def fetchall_statements)

theorem in_empty_renders_false_witness:
  "statements (snd (execute env_one_row (in_op ''x'' [] (new_table ''t''))))
     = [(''SELECT * FROM t WHERE FALSE'', Positional [])]
   \<and> \<not> list_all (\<lambda>clause. clause \<noteq> ''FALSE'') (where_conditions (in_op ''x'' [] (new_table ''t'')))"
  using in_empty_renders_false [of "''x''" "new_table ''t''" env_one_row "\<lambda>clause r. clause \<noteq> ''FALSE''"]
  by (simp add: new_table_def env_one_row_def)


section \<open>Updates bind the patch values first\<close>

lemma set_clause_placeholders:
  assumes "\<forall>col\<in>set cols. CHR ''%'' \<notin> set col"
  shows "count_ph (join '', '' (map (\<lambda>col. col @ '' = %s'') cols) @ rest)
         = length cols + count_ph rest"
proof -
  have "count_ph (join '', '' (map (\<lambda>col. col @ '' = %s'') cols) @ rest)
        = sum_list (map (\<lambda>x. 1) (map (\<lambda>col. col @ '' = %s'') cols)) + count_ph rest"
  proof (rule count_ph_join)
    fix x rest'
    assume "x \<in> set (map (\<lambda>col. col @ '' = %s'') cols)"
    then obtain col where "x = col @ '' = %s''" and "CHR ''%'' \<notin> set col"
      using assms by auto
    then show "count_ph (x @ rest') = 1 + count_ph rest'"
      by (simp add: count_ph_clean count_ph_skip)
  qed simp
  then show ?thesis by (simp add: sum_list_triv comp_def)
qed

lemma update_chain_alignment:
  assumes "ps \<noteq> []"
    and "\<forall>p\<in>set ps. CHR ''%'' \<notin> set (pred_column p)"
    and "\<forall>col\<in>set (map fst patch). CHR ''%'' \<notin> set col"
    and "where_conditions t = []" and "where_params t = []"
    and "CHR ''%'' \<notin> set (table_name t)"
  shows "statements (snd (update e (chain ps t) patch))
           = (if getconn e = None
              then [(update_sql (chain ps t) patch,
                     Positional (map snd patch @ concat (map pred_values ps)))]
              else [])
       \<and> update_sql (chain ps t) patch
           = (''UPDATE '' @ table_name t @ '' SET ''
                @ join '', '' (map (\<lambda>col. col @ '' = %s'') (map fst patch)))
             @ ('' WHERE '' @ join '' AND '' (concat (map pred_clause ps)) @ '' RETURNING *'')
       \<and> count_ph (''UPDATE '' @ table_name t @ '' SET ''
                @ join '', '' (map (\<lambda>col. col @ '' = %s'') (map fst patch)))
           = length (map snd patch)
       \<and> count_ph ('' WHERE '' @ join '' AND '' (concat (map pred_clause ps)) @ '' RETURNING *'')
           = length (concat (map pred_values ps))
       \<and> count_ph (update_sql (chain ps t) patch)
           = length (map snd patch @ concat (map pred_values ps))"
proof -
  let ?b = "chain ps t"
  let ?set = "''UPDATE '' @ table_name t @ '' SET ''
                @ join '', '' (map (\<lambda>col. col @ '' = %s'') (map fst patch))"
  let ?where = "'' WHERE '' @ join '' AND '' (concat (map pred_clause ps)) @ '' RETURNING *''"
  have params: "where_params ?b = concat (map pred_values ps)"
    using assms(5) by (simp add: chain_params)
  have conds: "where_conditions ?b = concat (map pred_clause ps)"
    using assms(4) by (simp add: chain_conditions)
  obtain p ps' where ps: "ps = p # ps'" using assms(1) by (cases ps) auto
  obtain cl where "pred_clause p = [cl]"
    using pred_clause_placeholders [of p] assms(2) ps by auto
  then have nonempty: "where_conditions ?b \<noteq> []" using conds ps by simp
  have sent: "statements (snd (update e ?b patch))
           = (if getconn e = None
              then [(update_sql ?b patch, Positional (map snd patch @ concat (map pred_values ps)))]
              else [])"
    using nonempty unfolding update_def params by (simp add: fetchall_statements)
  have sql: "update_sql ?b patch = ?set @ ?where"
    by (simp add: update_sql_def conds chain_other)
  have set_reg: "count_ph (?set @ rest) = length patch + count_ph rest" for rest
  proof -
    have "count_ph (?set @ rest)
          = count_ph ((''UPDATE '' @ table_name t @ '' SET '')
              @ (join '', '' (map (\<lambda>col. col @ '' = %s'') (map fst patch)) @ rest))"
      by simp
    also have "\<dots> = count_ph (join '', '' (map (\<lambda>col. col @ '' = %s'') (map fst patch)) @ rest)"
      using assms(6) by (intro count_ph_clean) simp
    also have "\<dots> = length (map fst patch) + count_ph rest"
      by (rule set_clause_placeholders [OF assms(3)])
    finally show ?thesis by simp
  qed
  have set_count: "count_ph ?set = length (map snd patch)"
    using set_reg [of "[]"] by simp
  have where_count: "count_ph ?where = length (concat (map pred_values ps))"
  proof -
    have "count_ph ?where = count_ph (join '' AND '' (concat (map pred_clause ps)) @ '' RETURNING *'')"
      by (simp add: count_ph_skip)
    also have "\<dots> = length (concat (map pred_values ps)) + count_ph '' RETURNING *''"
      by (rule where_placeholders [OF assms(2)])
    finally show ?thesis by simp
  qed
  have total: "count_ph (update_sql ?b patch) = length (map snd patch @ concat (map pred_values ps))"
    unfolding sql using set_reg [of ?where] where_count by simp
  show ?thesis using sent sql set_count where_count total by blast
qed

text \<open>
  C5. For \<open>update(patch)\<close> on a builder with at least one predicate: the one statement
  sent carries the patch values, in the patch's key order, followed by the predicate values,
  in call order; the rendered text is the \<open>SET\<close> part followed by the \<open>WHERE\<close> part. Where
  the names hold no \<open>%\<close> and the predicates come from a chain of calls on a fresh builder,
  the \<open>SET\<close> part holds as many placeholders as the patch has values, the \<open>WHERE\<close> part as
  many as there are predicate values, and the statement as many as there are parameters.
\<close>

theorem update_parameter_order:
  "(where_conditions t \<noteq> [] \<longrightarrow>
      statements (snd (update e t patch))
        = (if getconn e = None
           then [(update_sql t patch, Positional (map snd patch @ where_params t))] else []))
   \<and> update_sql t patch
       = (''UPDATE '' @ table_name t @ '' SET ''
            @ join '', '' (map (\<lambda>col. col @ '' = %s'') (map fst patch)))
         @ ('' WHERE '' @ join '' AND '' (where_conditions t) @ '' RETURNING *'')
   \<and> (ps \<noteq> [] \<longrightarrow>
      statements (snd (update e (chain ps t) patch))
        = (if getconn e = None
           then [(update_sql (chain ps t) patch,
                  Positional (map snd patch @ where_params t @ concat (map pred_values ps)))]
           else []))
   \<and> (ps \<noteq> [] \<and> (\<forall>p\<in>set ps. CHR ''%'' \<notin> set (pred_column p))
        \<and> (\<forall>col\<in>set (map fst patch). CHR ''%'' \<notin> set col)
        \<and> where_conditions t = [] \<and> where_params t = [] \<and> CHR ''%'' \<notin> set (table_name t) \<longrightarrow>
      count_ph (''UPDATE '' @ table_name t @ '' SET ''
                @ join '', '' (map (\<lambda>col. col @ '' = %s'') (map fst patch)))
        = length (map snd patch)
      \<and> count_ph ('' WHERE '' @ join '' AND '' (where_conditions (chain ps t)) @ '' RETURNING *'')
        = length (where_params (chain ps t))
      \<and> count_ph (update_sql (chain ps t) patch)
        = length (map snd patch @ where_params (chain ps t)))"
proof -
  have general: "statements (snd (update e t' patch))
        = (if getconn e = None
           then [(update_sql t' patch, Positional (map snd patch @ where_params t'))] else [])"
    if "where_conditions t' \<noteq> []" for t'
    using that by (simp add: update_def fetchall_statements)
  have sql: "update_sql t patch
       = (''UPDATE '' @ table_name t @ '' SET ''
            @ join '', '' (map (\<lambda>col. col @ '' = %s'') (map fst patch)))
         @ ('' WHERE '' @ join '' AND '' (where_conditions t) @ '' RETURNING *'')"
    by (simp add: update_sql_def)
  have chained: "statements (snd (update e (chain ps t) patch))
        = (if getconn e = None
           then [(update_sql (chain ps t) patch,
                  Positional (map snd patch @ where_params t @ concat (map pred_values ps)))]
           else [])"
    if "ps \<noteq> []"
  proof -
    have "length (concat (map pred_clause ps)) \<noteq> 0"
      using that by (simp add: chain_clauses_count)
    then have "where_conditions (chain ps t) \<noteq> []" by (simp add: chain_conditions)
    then show ?thesis using general [of "chain ps t"] by (simp add: chain_params)
  qed
  have counts: "count_ph (''UPDATE '' @ table_name t @ '' SET ''
                @ join '', '' (map (\<lambda>col. col @ '' = %s'') (map fst patch)))
        = length (map snd patch)
      \<and> count_ph ('' WHERE '' @ join '' AND '' (where_conditions (chain ps t)) @ '' RETURNING *'')
        = length (where_params (chain ps t))
      \<and> count_ph (update_sql (chain ps t) patch)
        = length (map snd patch @ where_params (chain ps t))"
    if "ps \<noteq> []" and "\<forall>p\<in>set ps. CHR ''%'' \<notin> set (pred_column p)"
      and "\<forall>col\<in>set (map fst patch). CHR ''%'' \<notin> set col"
      and "where_conditions t = []" and "where_params t = []" and "CHR ''%'' \<notin> set (table_name t)"
  proof -
    have c: "where_conditions (chain ps t) = concat (map pred_clause ps)"
      using that(4) by (simp add: chain_conditions)
    have p: "where_params (chain ps t) = concat (map pred_values ps)"
      using that(5) by (simp add: chain_params)
    show ?thesis unfolding c p using update_chain_alignment [OF that, of e] by blast
  qed
  show ?thesis using general [of t] sql chained counts by blast
qed

theorem update_parameter_order_witness:
  "statements (snd (update env_one_row
       (chain [CallEq ''id'' (PInt 7), CallIn ''k'' [PStr ''x'', PStr ''y'']] (new_table ''t''))
       [(''a'', PInt 1), (''b'', PNone)]))
     = [(''UPDATE t SET a = %s, b = %s WHERE id = %s AND k IN (%s, %s) RETURNING *'',
         Positional [PInt 1, PNone, PInt 7, PStr ''x'', PStr ''y''])]
   \<and> count_ph ''UPDATE t SET a = %s, b = %s'' = 2
   \<and> count_ph '' WHERE id = %s AND k IN (%s, %s) RETURNING *'' = 3
   \<and> count_ph ''UPDATE t SET a = %s, b = %s WHERE id = %s AND k IN (%s, %s) RETURNING *'' = 5"
  using update_parameter_order
    [where ps = "[CallEq ''id'' (PInt 7), CallIn ''k'' [PStr ''x'', PStr ''y'']]"
       and patch = "[(''a'', PInt 1), (''b'', PNone)]" and t = "new_table ''t''"
       and e = env_one_row]
  by (simp add: new_table_def env_one_row_def pred_clause_def chain_def eq_op_def in_op_def
        update_sql_def)

section \<open>Stored-procedure arguments\<close>

lemma named_phs_clean:
  "CHR ''%'' \<notin> set xs \<Longrightarrow> named_phs Outside (xs @ ys) = named_phs Outside ys"
  by (induction xs) auto

lemma named_phs_inside:
  "CHR '')'' \<notin> set k \<Longrightarrow>
     named_phs (Inside acc) (k @ CHR '')'' # ys) = (acc @ k) # named_phs Outside ys"
  by (induction k arbitrary: acc) auto

lemma named_phs_placeholder:
  "CHR '')'' \<notin> set k \<Longrightarrow>
     named_phs Outside ((''%('' @ k @ '')s'') @ ys) = k # named_phs Outside ys"
  using named_phs_inside [of k "[]" "CHR ''s'' # ys"] by simp

lemma named_phs_join:
  assumes "\<forall>k\<in>set keys. CHR '')'' \<notin> set k"
  shows "named_phs Outside (join '', '' (map (\<lambda>key. ''%('' @ key @ '')s'') keys) @ rest)
         = keys @ named_phs Outside rest"
  using assms
proof (induction keys)
  case Nil
  then show ?case by simp
next
  case (Cons k ks)
  show ?case
  proof (cases ks)
    case Nil
    then show ?thesis using Cons.prems named_phs_placeholder [of k rest] by simp
  next
    case (Cons k' ks')
    have "join '', '' (map (\<lambda>key. ''%('' @ key @ '')s'') (k # ks)) @ rest
          = (''%('' @ k @ '')s'') @ ('', '' @ join '', '' (map (\<lambda>key. ''%('' @ key @ '')s'') ks) @ rest)"
      using Cons by simp
    then have "named_phs Outside (join '', '' (map (\<lambda>key. ''%('' @ key @ '')s'') (k # ks)) @ rest)
          = k # named_phs Outside ('', '' @ join '', '' (map (\<lambda>key. ''%('' @ key @ '')s'') ks) @ rest)"
      using Cons.prems named_phs_placeholder [of k] by simp
    also have "named_phs Outside ('', '' @ join '', '' (map (\<lambda>key. ''%('' @ key @ '')s'') ks) @ rest)
          = named_phs Outside (join '', '' (map (\<lambda>key. ''%('' @ key @ '')s'') ks) @ rest)"
      by simp
    also have "\<dots> = ks @ named_phs Outside rest"
      using Cons.IH Cons.prems by simp
    finally show ?thesis by simp
  qed
qed

lemma map_of_keys:
  "distinct (map fst ps) \<Longrightarrow> map (map_of ps) (map fst ps) = map (\<lambda>kv. Some (snd kv)) ps"
  by (induction ps) (auto simp: rev_image_eqI)

text \<open>
  C9, as stated, fails: the call is rendered with positional arguments, one placeholder
  per key in the insertion order of the mapping. Two mappings with the same name-to-value
  association and different insertion orders render different calls: the procedure's first
  argument receives 1 in the one and 2 in the other.
\<close>

theorem rpc_argument_order_counterexample:
  "map_of [(''a'', PInt 1), (''b'', PInt 2)] = map_of [(''b'', PInt 2), (''a'', PInt 1)]
   \<and> rpc_sql (new_rpc ''f'' (Some [(''a'', PInt 1), (''b'', PInt 2)]))
       = ''SELECT * FROM f(%(a)s, %(b)s)''
   \<and> rpc_sql (new_rpc ''f'' (Some [(''b'', PInt 2), (''a'', PInt 1)]))
       = ''SELECT * FROM f(%(b)s, %(a)s)''
   \<and> map (map_of [(''a'', PInt 1), (''b'', PInt 2)])
         (named_placeholders (rpc_sql (new_rpc ''f'' (Some [(''a'', PInt 1), (''b'', PInt 2)]))))
       = [Some (PInt 1), Some (PInt 2)]
   \<and> map (map_of [(''b'', PInt 2), (''a'', PInt 1)])
         (named_placeholders (rpc_sql (new_rpc ''f'' (Some [(''b'', PInt 2), (''a'', PInt 1)]))))
       = [Some (PInt 2), Some (PInt 1)]
   \<and> rpc_sql (new_rpc ''f'' (Some [(''a'', PInt 1), (''b'', PInt 2)]))
       \<noteq> rpc_sql (new_rpc ''f'' (Some [(''b'', PInt 2), (''a'', PInt 1)]))"
  by (auto simp: fun_eq_iff new_rpc_def rpc_sql_def named_placeholders_def)

text \<open>
  C9, amended. The caller's mapping is handed to the driver unchanged, so every
  placeholder \<open>%(name)s\<close> is bound to the value stored under its name; the placeholders of
  the rendered call are the keys of the mapping in insertion order, so the procedure's
  i-th argument receives the value of the i-th inserted key (function name free of \<open>%\<close>,
  keys free of a closing parenthesis and distinct).
\<close>

theorem rpc_binds_in_insertion_order:
  assumes "CHR ''%'' \<notin> set (function_name r)"
    and "\<forall>k\<in>set (map fst (params r)). CHR '')'' \<notin> set k"
    and "distinct (map fst (params r))"
  shows "statements (snd (rpc_execute e r))
           = (if getconn e = None then [(rpc_sql r, Named (params r))] else [])
       \<and> named_placeholders (rpc_sql r) = map fst (params r)
       \<and> map (map_of (params r)) (named_placeholders (rpc_sql r))
           = map (\<lambda>kv. Some (snd kv)) (params r)"
proof -
  have sent: "statements (snd (rpc_execute e r))
           = (if getconn e = None then [(rpc_sql r, Named (params r))] else [])"
    by (simp add: rpc_execute_def fetchall_statements)
  have "named_phs Outside (rpc_sql r)
        = named_phs Outside ((''SELECT * FROM '' @ function_name r @ ''('')
            @ (join '', '' (map (\<lambda>key. ''%('' @ key @ '')s'') (map fst (params r))) @ '')''))"
    by (simp add: rpc_sql_def)
  also have "\<dots> = named_phs Outside
            (join '', '' (map (\<lambda>key. ''%('' @ key @ '')s'') (map fst (params r))) @ '')'')"
    using assms(1) by (intro named_phs_clean) simp
  also have "\<dots> = map fst (params r) @ named_phs Outside '')''"
    by (rule named_phs_join [OF assms(2)])
  finally have names: "named_placeholders (rpc_sql r) = map fst (params r)"
    by (simp add: named_placeholders_def)
  show ?thesis using sent names map_of_keys [OF assms(3)] by simp
qed

theorem rpc_binds_in_insertion_order_witness:
  "statements (snd (rpc_execute env_one_row (new_rpc ''f'' (Some [(''a'', PInt 1), (''b'', PInt 2)]))))
     = [(''SELECT * FROM f(%(a)s, %(b)s)'', Named [(''a'', PInt 1), (''b'', PInt 2)])]
   \<and> named_placeholders ''SELECT * FROM f(%(a)s, %(b)s)'' = [''a'', ''b'']"
  using rpc_binds_in_insertion_order
    [of "new_rpc ''f'' (Some [(''a'', PInt 1), (''b'', PInt 2)])" env_one_row]
  by (simp add: new_rpc_def env_one_row_def rpc_sql_def)

section \<open>The shape of results\<close>

lemma fetchall_result:
  assumes "wrap_error prefix (get_cursor e (fetchall_body e sql b)) = (Inr r, tr)"
  shows "\<exists>rows. run e [GetConn] sql b = Inr rows \<and> data r = map Some rows \<and> count r = length rows"
  using assms
  by (auto simp: wrap_error_def get_cursor_def get_connection_def fetchall_body_def
        cursor_execute_def mk_result_def split: option.splits sum.splits prod.splits)

text \<open>
  The calls that read their result with \<open>fetchall()\<close> return exactly the rows the statement
  returned, and their number: no entry is \<open>None\<close>.
\<close>

lemma fetchall_calls_return_rows:
  "(execute e t = (Inr r1, tr1) \<longrightarrow>
      (\<exists>rows. run e [GetConn] (select_sql t) (Positional (where_params t)) = Inr rows
         \<and> data r1 = map Some rows \<and> count r1 = length rows))
   \<and> (update e t patch = (Inr r2, tr2) \<longrightarrow>
      (\<exists>rows. run e [GetConn] (update_sql t patch) (Positional (map snd patch @ where_params t))
                = Inr rows
         \<and> data r2 = map Some rows \<and> count r2 = length rows))
   \<and> (delete e t = (Inr r3, tr3) \<longrightarrow>
      (\<exists>rows. run e [GetConn] (delete_sql t) (Positional (where_params t)) = Inr rows
         \<and> data r3 = map Some rows \<and> count r3 = length rows))
   \<and> (rpc_execute e p = (Inr r4, tr4) \<longrightarrow>
      (\<exists>rows. run e [GetConn] (rpc_sql p) (Named (params p)) = Inr rows
         \<and> data r4 = map Some rows \<and> count r4 = length rows))"
proof -
  have upd: "update e t patch = (Inr r2, tr2) \<Longrightarrow>
      update e t patch = wrap_error ''Database update failed: ''
        (get_cursor e (fetchall_body e (update_sql t patch)
           (Positional (map snd patch @ where_params t))))"
    by (cases "where_conditions t = []") (simp_all add: update_def wrap_error_def)
  have del: "delete e t = (Inr r3, tr3) \<Longrightarrow>
      delete e t = wrap_error ''Database delete failed: ''
        (get_cursor e (fetchall_body e (delete_sql t) (Positional (where_params t))))"
    by (cases "where_conditions t = []") (simp_all add: delete_def wrap_error_def)
  show ?thesis
    using fetchall_result [of "''Database query failed: ''" e "select_sql t"
            "Positional (where_params t)" r1 tr1]
      fetchall_result [of "''Database update failed: ''" e "update_sql t patch"
            "Positional (map snd patch @ where_params t)" r2 tr2] upd
      fetchall_result [of "''Database function call failed: ''" e "rpc_sql p"
            "Named (params p)" r4 tr4]
      fetchall_result [of "''Database delete failed: ''" e "delete_sql t"
            "Positional (where_params t)" r3 tr3] del
    by (simp add: execute_def rpc_execute_def)
qed

text \<open>
  C6 holds of the calls above and fails for \<open>insert\<close>, which appends \<open>cursor.fetchone()\<close>
  unchecked. Inserting two records into a database that returns a row for the first
  statement and none for the second gives a result whose second entry is \<open>None\<close>, not a
  row, and a count of 2 although one row was returned. A \<open>SELECT\<close> that returns no row
  gives no entry and the count 0.
\<close>

theorem insert_counts_missing_row:
  "insert_tbl env_row_for_one (new_table ''t'')
       (Many [[(''a'', PInt 1), (''name'', PStr ''x'')], [(''a'', PInt 2), (''name'', PStr ''y'')]])
     = (Inr \<lparr>data = [Some [(''id'', PInt 1)], None], count = 2\<rparr>,
        [GetConn,
         Execute ''INSERT INTO t (a, name) VALUES (%s, %s) RETURNING *''
           (Positional [PInt 1, PStr ''x'']),
         Execute ''INSERT INTO t (a, name) VALUES (%s, %s) RETURNING *''
           (Positional [PInt 2, PStr ''y'']),
         Commit, PutConn])
   \<and> run env_row_for_one
         [GetConn, Execute ''INSERT INTO t (a, name) VALUES (%s, %s) RETURNING *''
                     (Positional [PInt 1, PStr ''x''])]
         ''INSERT INTO t (a, name) VALUES (%s, %s) RETURNING *'' (Positional [PInt 2, PStr ''y''])
     = Inr []
   \<and> execute env_no_row (new_table ''t'')
     = (Inr \<lparr>data = [], count = 0\<rparr>,
        [GetConn, Execute ''SELECT * FROM t'' (Positional []), Commit, PutConn])"
  by (simp add: insert_tbl_def wrap_error_def get_cursor_def get_connection_def insert_body_def
        insert_sql_def cursor_execute_def getitem_def fetchone_def mk_result_def
        env_row_for_one_def env_no_row_def new_table_def execute_def fetchall_body_def
        select_sql_def)

section \<open>Inserting several records\<close>

lemma record_values_present:
  "(\<forall>c\<in>set cols. map_of r c \<noteq> None) \<Longrightarrow>
     record_values r cols = Inr (map (\<lambda>c. the (map_of r c)) cols)"
  by (induction cols) (auto simp: getitem_def)

lemma record_values_missing:
  "\<exists>c\<in>set cols. map_of r c = None \<Longrightarrow> \<exists>k. record_values r cols = Inl (KeyError k)"
proof (induction cols)
  case Nil
  then show ?case by simp
next
  case (Cons a cols)
  show ?case
  proof (cases "map_of r a")
    case None
    then show ?thesis by (simp add: getitem_def)
  next
    case (Some v)
    then have "\<exists>c\<in>set cols. map_of r c = None" using Cons.prems by auto
    then obtain k where "record_values r cols = Inl (KeyError k)" using Cons.IH by blast
    then show ?thesis using Some by (simp add: getitem_def)
  qed
qed

lemma record_values_error:
  "record_values r cols = Inl ex \<Longrightarrow> \<exists>k. ex = KeyError k"
  by (induction cols arbitrary: ex) (auto simp: getitem_def split: option.splits sum.splits)

lemma insert_loop_statements_sql:
  "set (map fst (statements (snd (insert_loop e sql cols recs acc tr))))
     \<subseteq> set (map fst (statements tr)) \<union> {sql}"
proof (induction recs arbitrary: acc tr)
  case Nil
  then show ?case by auto
next
  case (Cons r rs)
  show ?case
  proof (cases "record_values r cols")
    case (Inl ex)
    then show ?thesis by auto
  next
    case (Inr vals)
    show ?thesis
    proof (cases "run e tr sql (Positional vals)")
      case (Inl ex)
      then show ?thesis using Inr by (auto simp: cursor_execute_def statements_append)
    next
      case (Inr rows)
      then show ?thesis
        using \<open>record_values r cols = Inr vals\<close>
          Cons.IH [of "acc @ [fetchone rows]" "tr @ [Execute sql (Positional vals)]"]
        by (auto simp: cursor_execute_def statements_append)
    qed
  qed
qed

lemma insert_loop_missing:
  assumes "\<exists>r\<in>set recs. \<exists>c\<in>set cols. map_of r c = None"
  shows "\<exists>ex. fst (insert_loop e sql cols recs acc tr) = Inl ex \<and> is_Exception ex"
  using assms
proof (induction recs arbitrary: acc tr)
  case Nil
  then show ?case by simp
next
  case (Cons r rs)
  show ?case
  proof (cases "\<exists>c\<in>set cols. map_of r c = None")
    case True
    then obtain k where "record_values r cols = Inl (KeyError k)"
      using record_values_missing by blast
    then show ?thesis by simp
  next
    case False
    then have rest: "\<exists>r\<in>set rs. \<exists>c\<in>set cols. map_of r c = None" using Cons.prems by auto
    show ?thesis
      using Cons.IH [OF rest] record_values_error [of r cols]
      by (auto simp: cursor_execute_def split: sum.splits prod.splits)
  qed
qed

lemma insert_loop_complete:
  assumes "\<forall>r\<in>set recs. \<forall>c\<in>set cols. map_of r c \<noteq> None"
    and "\<forall>h s b. \<exists>rows. run e h s b = Inr rows"
  shows "(\<exists>results. fst (insert_loop e sql cols recs acc tr) = Inr results
           \<and> length results = length acc + length recs)
       \<and> statements (snd (insert_loop e sql cols recs acc tr))
           = statements tr @ map (\<lambda>r. (sql, Positional (map (\<lambda>c. the (map_of r c)) cols))) recs"
  using assms(1)
proof (induction recs arbitrary: acc tr)
  case Nil
  show ?case by simp
next
  case (Cons r rs)
  let ?vals = "map (\<lambda>c. the (map_of r c)) cols"
  have vals: "record_values r cols = Inr ?vals"
    using Cons.prems by (intro record_values_present) simp
  obtain rows where rows: "run e tr sql (Positional ?vals) = Inr rows"
    using assms(2) by blast
  have rest: "\<forall>r\<in>set rs. \<forall>c\<in>set cols. map_of r c \<noteq> None" using Cons.prems by simp
  have step: "insert_loop e sql cols (r # rs) acc tr
      = insert_loop e sql cols rs (acc @ [fetchone rows]) (tr @ [Execute sql (Positional ?vals)])"
    using vals rows by (simp add: cursor_execute_def)
  show ?case unfolding step
    using Cons.IH [OF rest, of "acc @ [fetchone rows]" "tr @ [Execute sql (Positional ?vals)]"]
    by (simp add: statements_append)
qed

lemma scope_statements:
  "statements (snd (wrap_error prefix (get_cursor e body)))
   = (if getconn e = None then statements (snd (body [GetConn])) else [])"
  by (simp add: wrap_error_def get_cursor_def get_connection_def statements_append
        split: option.splits sum.splits prod.splits)

lemma scope_failure:
  "fst (body [GetConn]) = Inl ex \<Longrightarrow> is_Exception ex \<Longrightarrow>
     \<exists>msg. fst (wrap_error prefix (get_cursor e body)) = Inl (DatabaseError msg)"
  by (auto simp: wrap_error_def get_cursor_def get_connection_def
        split: option.splits sum.splits prod.splits)

lemma scope_success:
  "getconn e = None \<Longrightarrow> commit e = None \<Longrightarrow> fst (body [GetConn]) = Inr v \<Longrightarrow>
     fst (wrap_error prefix (get_cursor e body)) = Inr v"
  by (auto simp: wrap_error_def get_cursor_def get_connection_def
        split: option.splits sum.splits prod.splits)

lemma insert_body_loop:
  "snd (insert_body e sql cols recs tr) = snd (insert_loop e sql cols recs [] tr)"
  "fst (insert_loop e sql cols recs [] tr) = Inl ex \<Longrightarrow>
     fst (insert_body e sql cols recs tr) = Inl ex"
  "fst (insert_loop e sql cols recs [] tr) = Inr results \<Longrightarrow>
     fst (insert_body e sql cols recs tr) = Inr (mk_result results)"
  by (auto simp: insert_body_def split: sum.splits prod.splits)

text \<open>
  C7, as stated, fails for extra keys: a later record whose key set is larger than the
  first record's is accepted. Only its values for the first record's columns are bound;
  the value of the extra key \<open>b\<close> is dropped and the call succeeds.
\<close>

theorem insert_extra_keys_counterexample:
  "set (map fst [(''a'', PInt 2), (''b'', PInt 3)]) \<noteq> set (map fst [(''a'', PInt 1)])
   \<and> insert_tbl env_one_row (new_table ''t'')
        (Many [[(''a'', PInt 1)], [(''a'', PInt 2), (''b'', PInt 3)]])
     = (Inr \<lparr>data = [Some [(''id'', PInt 1)], Some [(''id'', PInt 1)]], count = 2\<rparr>,
        [GetConn, Execute ''INSERT INTO t (a) VALUES (%s) RETURNING *'' (Positional [PInt 1]),
         Execute ''INSERT INTO t (a) VALUES (%s) RETURNING *'' (Positional [PInt 2]),
         Commit, PutConn])"
  by (simp add: insert_tbl_def wrap_error_def get_cursor_def get_connection_def insert_body_def
        insert_sql_def cursor_execute_def getitem_def fetchone_def mk_result_def env_one_row_def
        new_table_def)

text \<open>
  C7, amended. For a non-empty sequence of records every statement sent is the
  \<open>INSERT\<close> over the first record's keys. A later record that lacks one of those keys makes
  the call fail with a \<open>DatabaseError\<close>. When every later record has all of those keys
  (it may have more), the pool lends a connection and the database raises nothing, the
  call succeeds with one statement per record, in input order, binding the record's values
  for the first record's columns and nothing else.
\<close>

theorem insert_columns_from_first_record:
  assumes "recs = first # rest"
  shows "set (map fst (statements (snd (insert_tbl e t (Many recs)))))
           \<subseteq> {insert_sql (table_name t) (map fst first)}
       \<and> ((\<exists>r\<in>set rest. \<exists>c\<in>set (map fst first). map_of r c = None) \<longrightarrow>
            (\<exists>msg. fst (insert_tbl e t (Many recs)) = Inl (DatabaseError msg)))
       \<and> ((\<forall>r\<in>set rest. \<forall>c\<in>set (map fst first). map_of r c \<noteq> None)
            \<and> getconn e = None \<and> commit e = None
            \<and> (\<forall>h s b. \<exists>rows. run e h s b = Inr rows) \<longrightarrow>
            (\<exists>res. fst (insert_tbl e t (Many recs)) = Inr res \<and> count res = length recs)
            \<and> statements (snd (insert_tbl e t (Many recs)))
                = map (\<lambda>r. (insert_sql (table_name t) (map fst first),
                             Positional (map (\<lambda>c. the (map_of r c)) (map fst first)))) recs)"
proof -
  let ?cols = "map fst first"
  let ?sql = "insert_sql (table_name t) ?cols"
  let ?body = "insert_body e ?sql ?cols recs"
  have unfold: "insert_tbl e t (Many recs)
      = wrap_error ''Database insert failed: '' (get_cursor e ?body)"
    using assms by (simp add: insert_tbl_def Let_def)
  have a: "set (map fst (statements (snd (insert_tbl e t (Many recs))))) \<subseteq> {?sql}"
    unfolding unfold scope_statements
    using insert_loop_statements_sql [of e ?sql ?cols recs "[]" "[GetConn]"]
    by (cases "getconn e") (auto simp: insert_body_loop(1))
  have b: "\<exists>msg. fst (insert_tbl e t (Many recs)) = Inl (DatabaseError msg)"
    if "\<exists>r\<in>set rest. \<exists>c\<in>set ?cols. map_of r c = None"
  proof -
    have "\<exists>r\<in>set recs. \<exists>c\<in>set ?cols. map_of r c = None" using that assms by auto
    then obtain ex where ex: "fst (insert_loop e ?sql ?cols recs [] [GetConn]) = Inl ex"
        and caught: "is_Exception ex"
      using insert_loop_missing by blast
    have "fst (?body [GetConn]) = Inl ex" using ex by (rule insert_body_loop(2))
    then show ?thesis unfolding unfold using caught by (rule scope_failure)
  qed
  have c: "(\<exists>res. fst (insert_tbl e t (Many recs)) = Inr res \<and> count res = length recs)
            \<and> statements (snd (insert_tbl e t (Many recs)))
                = map (\<lambda>r. (?sql, Positional (map (\<lambda>c. the (map_of r c)) ?cols))) recs"
    if keys: "\<forall>r\<in>set rest. \<forall>c\<in>set ?cols. map_of r c \<noteq> None"
      and pool: "getconn e = None" "commit e = None"
      and db: "\<forall>h s b. \<exists>rows. run e h s b = Inr rows"
  proof -
    have "\<forall>c\<in>set ?cols. map_of first c \<noteq> None"
      by (simp add: map_of_eq_None_iff)
    then have all: "\<forall>r\<in>set recs. \<forall>c\<in>set ?cols. map_of r c \<noteq> None"
      using keys assms by simp
    from insert_loop_complete [OF all db, of ?sql "[]" "[GetConn]"]
    obtain results where res: "fst (insert_loop e ?sql ?cols recs [] [GetConn]) = Inr results"
        and len: "length results = length recs"
        and sent: "statements (snd (insert_loop e ?sql ?cols recs [] [GetConn]))
           = map (\<lambda>r. (?sql, Positional (map (\<lambda>c. the (map_of r c)) ?cols))) recs"
      by auto
    have "fst (?body [GetConn]) = Inr (mk_result results)"
      using res by (rule insert_body_loop(3))
    then have "fst (insert_tbl e t (Many recs)) = Inr (mk_result results)"
      unfolding unfold using pool by (intro scope_success)
    moreover have "statements (snd (insert_tbl e t (Many recs)))
        = map (\<lambda>r. (?sql, Positional (map (\<lambda>c. the (map_of r c)) ?cols))) recs"
      unfolding unfold scope_statements using pool sent by (simp add: insert_body_loop(1))
    ultimately show ?thesis using len by (simp add: mk_result_def)
  qed
  show ?thesis using a b c by blast
qed

theorem insert_columns_from_first_record_witness:
  "fst (insert_tbl env_one_row (new_table ''t'')
          (Many [[(''a'', PInt 1), (''b'', PInt 3)], [(''a'', PInt 2)]]))
     = Inl (DatabaseError (''Database insert failed: '' @ [CHR 0x27] @ ''b'' @ [CHR 0x27]))
   \<and> statements (snd (insert_tbl env_one_row (new_table ''t'')
          (Many [[(''a'', PInt 1)], [(''b'', PInt 3), (''a'', PInt 2)]])))
     = [(''INSERT INTO t (a) VALUES (%s) RETURNING *'', Positional [PInt 1]),
        (''INSERT INTO t (a) VALUES (%s) RETURNING *'', Positional [PInt 2])]"
  using insert_columns_from_first_record
      [of "[[(''a'', PInt 1), (''b'', PInt 3)], [(''a'', PInt 2)]]" "[(''a'', PInt 1), (''b'', PInt 3)]"
          "[[(''a'', PInt 2)]]" env_one_row "new_table ''t''"]
    insert_columns_from_first_record
      [of "[[(''a'', PInt 1)], [(''b'', PInt 3), (''a'', PInt 2)]]" "[(''a'', PInt 1)]"
          "[[(''b'', PInt 3), (''a'', PInt 2)]]" env_one_row "new_table ''t''"]
  by (simp add: insert_tbl_def wrap_error_def get_cursor_def get_connection_def insert_body_def
        insert_sql_def cursor_execute_def getitem_def fetchone_def mk_result_def env_one_row_def
        new_table_def py_repr_def repr_char_def Let_def)

end
